theory Spec2Isabelle
  imports Main
begin

section \<open>Python strings\<close>

text \<open>
  A Python \<open>str\<close> is a sequence of Unicode code points. It is modelled as a list of
  natural numbers, one per code point, so that \<open>len\<close> is \<open>length\<close> and the whitespace
  test can name the non-ASCII whitespace code points. \<open>str ''abc''\<close> is the model of the
  literal \<open>'abc'\<close>.
\<close>

type_synonym pystr = "nat list"

definition ord :: "char \<Rightarrow> nat" where
  "ord c = of_char c"

definition str :: "string \<Rightarrow> pystr" where
  "str s = map ord s"

text \<open>
  \<open>str.isspace\<close> on one code point (CPython's \<open>Py_UNICODE_ISSPACE\<close>); the test behind
  \<open>str.strip()\<close> and behind \<open>\s\<close> in a \<open>str\<close> pattern of \<open>re\<close>.
\<close>

definition isspace :: "nat \<Rightarrow> bool" where
  "isspace c \<longleftrightarrow>
     (0x09 \<le> c \<and> c \<le> 0x0D) \<or> (0x1C \<le> c \<and> c \<le> 0x20) \<or> c = 0x85 \<or> c = 0xA0 \<or>
     c = 0x1680 \<or> (0x2000 \<le> c \<and> c \<le> 0x200A) \<or> c = 0x2028 \<or> c = 0x2029 \<or>
     c = 0x202F \<or> c = 0x205F \<or> c = 0x3000"

text \<open>\<open>s.strip()\<close>: whitespace removed from both ends.\<close>

definition strip :: "pystr \<Rightarrow> pystr" where
  "strip s = rev (dropWhile isspace (rev (dropWhile isspace s)))"

text \<open>\<open>s.lstrip(c)\<close> and \<open>s.rstrip(c)\<close> for a one-character argument \<open>c\<close>.\<close>

definition lstrip_chr :: "nat \<Rightarrow> pystr \<Rightarrow> pystr" where
  "lstrip_chr c s = dropWhile (\<lambda>x. x = c) s"

definition rstrip_chr :: "nat \<Rightarrow> pystr \<Rightarrow> pystr" where
  "rstrip_chr c s = rev (dropWhile (\<lambda>x. x = c) (rev s))"

definition startswith :: "pystr \<Rightarrow> pystr \<Rightarrow> bool" where
  "startswith s p \<longleftrightarrow> take (length p) s = p"

definition endswith :: "pystr \<Rightarrow> pystr \<Rightarrow> bool" where
  "endswith s p \<longleftrightarrow> length p \<le> length s \<and> drop (length s - length p) s = p"

text \<open>\<open>s.split(c)\<close> for a one-character separator: never empty, one more piece than separators.\<close>

fun split_chr :: "nat \<Rightarrow> pystr \<Rightarrow> pystr list" where
  "split_chr c [] = [[]]"
| "split_chr c (x # xs) =
     (if x = c then [] # split_chr c xs
      else (case split_chr c xs of [] \<Rightarrow> [[x]] | w # ws \<Rightarrow> (x # w) # ws))"

text \<open>\<open>s.split(c)[0]\<close>: the part before the first \<open>c\<close>.\<close>

definition split_first :: "nat \<Rightarrow> pystr \<Rightarrow> pystr" where
  "split_first c s = (case split_chr c s of [] \<Rightarrow> [] | w # ws \<Rightarrow> w)"

text \<open>\<open>sep.join(parts)\<close>.\<close>

fun join_str :: "pystr \<Rightarrow> pystr list \<Rightarrow> pystr" where
  "join_str sep [] = []"
| "join_str sep [p] = p"
| "join_str sep (p # q # ps) = p @ sep @ join_str sep (q # ps)"

text \<open>\<open>s.rfind(c)\<close>: the index of the last \<open>c\<close>, or \<open>-1\<close>.\<close>

fun rfind :: "nat \<Rightarrow> pystr \<Rightarrow> int" where
  "rfind c [] = - 1"
| "rfind c (x # xs) =
     (let r = rfind c xs in if 0 \<le> r then r + 1 else if x = c then 0 else - 1)"

text \<open>\<open>str(n)\<close> for an integer: decimal digits, with a sign for a negative number.\<close>

fun dec_digits :: "nat \<Rightarrow> pystr" where
  "dec_digits n = (if n < 10 then [48 + n] else dec_digits (n div 10) @ [48 + n mod 10])"

definition str_of_int :: "int \<Rightarrow> pystr" where
  "str_of_int i = (if i < 0 then ord CHR ''-'' # dec_digits (nat (- i)) else dec_digits (nat i))"


section \<open>The standard library's \<open>posixpath\<close>\<close>

definition sep :: nat where
  "sep = ord CHR ''/''"

text \<open>\<open>os.path.join(a, b)\<close>.\<close>

definition path_join :: "pystr \<Rightarrow> pystr \<Rightarrow> pystr" where
  "path_join a b =
     (if startswith b [sep] then b
      else if a = [] \<or> endswith a [sep] then a @ b
      else a @ [sep] @ b)"

text \<open>\<open>os.path.dirname(p)\<close>.\<close>

definition path_dirname :: "pystr \<Rightarrow> pystr" where
  "path_dirname p =
     (let i = nat (rfind sep p + 1);
          head = take i p
      in if head \<noteq> [] \<and> head \<noteq> replicate (length head) sep then rstrip_chr sep head else head)"

text \<open>\<open>os.path.normpath(path)\<close>: the loop over the components, then the function.\<close>

definition normpath_step :: "nat \<Rightarrow> pystr list \<Rightarrow> pystr \<Rightarrow> pystr list" where
  "normpath_step initial_slashes new_comps part =
     (if part = [] \<or> part = str ''.'' then new_comps
      else if part \<noteq> str ''..'' \<or> (initial_slashes = 0 \<and> new_comps = []) \<or>
              (new_comps \<noteq> [] \<and> last new_comps = str ''..'')
           then new_comps @ [part]
      else if new_comps \<noteq> [] then butlast new_comps
      else new_comps)"

definition normpath :: "pystr \<Rightarrow> pystr" where
  "normpath path =
     (if path = [] then str ''.''
      else
        let initial_slashes =
              (if startswith path [sep]
               then (if startswith path [sep, sep] \<and> \<not> startswith path [sep, sep, sep]
                     then 2 else 1)
               else 0);
            parts = split_chr sep path;
            new_comps = foldl (normpath_step initial_slashes) [] parts;
            joined = join_str [sep] new_comps;
            result = (if initial_slashes \<noteq> 0 then replicate initial_slashes sep @ joined
                      else joined)
        in if result = [] then str ''.'' else result)"


section \<open>The file system\<close>

text \<open>
  The operating system is a tree of directories and regular files together with the
  process's current directory. A regular file carries the text that
  \<open>open(path, 'r', encoding='utf-8').read()\<close> returns, or \<open>None\<close> when opening or
  decoding it raises. The tree is static during a run and has no symbolic links.
\<close>

datatype node = File "pystr option" | Dir "(pystr \<times> node) list"

record os =
  fs_root :: node
  getcwd :: pystr

text \<open>
  Path resolution as the kernel does it: component by component from the root, with the
  chain of directories entered so far (innermost first). Every component, also an empty
  one, \<open>.\<close> and \<open>..\<close>, needs the current node to be a directory.
\<close>

fun resolve :: "node list \<Rightarrow> pystr list \<Rightarrow> node option" where
  "resolve [] parts = None"
| "resolve (cur # up) [] = Some cur"
| "resolve (File c # up) (part # parts) = None"
| "resolve (Dir es # up) (part # parts) =
     (if part = [] \<or> part = str ''.'' then resolve (Dir es # up) parts
      else if part = str ''..'' then resolve (if up = [] then [Dir es] else up) parts
      else (case map_of es part of
              None \<Rightarrow> None
            | Some n \<Rightarrow> resolve (n # Dir es # up) parts))"

text \<open>\<open>os.stat(path)\<close>, reduced to the kind of node found; \<open>None\<close> when it raises \<open>OSError\<close>.\<close>

definition stat :: "os \<Rightarrow> pystr \<Rightarrow> node option" where
  "stat os path =
     (if path = [] then None
      else if startswith path [sep] then resolve [fs_root os] (split_chr sep path)
      else resolve [fs_root os] (split_chr sep (getcwd os @ [sep] @ path)))"

text \<open>\<open>os.path.exists\<close> and \<open>os.path.isdir\<close> (both are \<open>os.stat\<close> with the error caught).\<close>

definition path_exists :: "os \<Rightarrow> pystr \<Rightarrow> bool" where
  "path_exists os path = (case stat os path of None \<Rightarrow> False | Some n \<Rightarrow> True)"

definition path_isdir :: "os \<Rightarrow> pystr \<Rightarrow> bool" where
  "path_isdir os path =
     (case stat os path of None \<Rightarrow> False | Some (File c) \<Rightarrow> False | Some (Dir es) \<Rightarrow> True)"

text \<open>\<open>os.path.abspath(path)\<close>.\<close>

definition abspath :: "os \<Rightarrow> pystr \<Rightarrow> pystr" where
  "abspath os path =
     normpath (if \<not> startswith path [sep] then path_join (getcwd os) path else path)"


section \<open>\<open>validate_local_link\<close>\<close>

text \<open>
  The calls a function makes to the file system's existence tests, in order, are returned
  beside its result.
\<close>

datatype fs_call = Exists pystr | IsDir pystr

text \<open>
  Lines 66 to 73: the path the existence tests are made on, from the target without its
  fragment.
\<close>

definition local_full_path :: "os \<Rightarrow> pystr \<Rightarrow> pystr \<Rightarrow> pystr \<Rightarrow> pystr" where
  "local_full_path os clean_url base_path docs_root =
     abspath os
       (if startswith clean_url (str ''/'')
        then path_join docs_root (lstrip_chr (ord CHR ''/'') clean_url)
        else path_join (path_dirname base_path) clean_url)"

definition validate_local_link ::
  "os \<Rightarrow> pystr \<Rightarrow> pystr \<Rightarrow> pystr \<Rightarrow> (bool \<times> pystr) \<times> fs_call list" where
  "validate_local_link os link_url base_path docs_root =
     (let clean_url = split_first (ord CHR ''#'') link_url in
      if clean_url = [] then ((True, str ''Fragment only''), [])
      else
        let full_path = local_full_path os clean_url base_path docs_root in
        if path_exists os full_path
        then ((True, str ''File exists''), [Exists full_path])
        else if path_isdir os full_path
        then
          (let index_path = path_join full_path (str ''index.md'') in
           if path_exists os index_path
           then ((True, str ''Directory with index.md''),
                 [Exists full_path, IsDir full_path, Exists index_path])
           else ((False, str ''File not found: '' @ full_path),
                 [Exists full_path, IsDir full_path, Exists index_path]))
        else ((False, str ''File not found: '' @ full_path),
              [Exists full_path, IsDir full_path]))"


section \<open>\<open>find_markdown_files\<close>\<close>

text \<open>
  \<open>os.walk(directory)\<close> with its default arguments: a directory that cannot be listed
  (\<open>os.scandir\<close> raises \<open>OSError\<close>: the path is missing or is not a directory) yields
  nothing; otherwise the directory's triple comes first, then the walk of each of its
  subdirectories in the order they were listed.
\<close>

fun is_dir_entry :: "pystr \<times> node \<Rightarrow> bool" where
  "is_dir_entry (name, Dir es) = True"
| "is_dir_entry (name, File c) = False"

fun walk_node :: "pystr \<Rightarrow> node \<Rightarrow> (pystr \<times> pystr list \<times> pystr list) list" where
  "walk_node dirpath (File c) = []"
| "walk_node dirpath (Dir es) =
     (dirpath, map fst (filter is_dir_entry es), map fst (filter (\<lambda>e. \<not> is_dir_entry e) es))
     # concat (map (\<lambda>(name, d). walk_node (path_join dirpath name) d) (filter is_dir_entry es))"

definition os_walk :: "os \<Rightarrow> pystr \<Rightarrow> (pystr \<times> pystr list \<times> pystr list) list" where
  "os_walk os directory =
     (case stat os directory of
        None \<Rightarrow> []
      | Some (File c) \<Rightarrow> []
      | Some (Dir es) \<Rightarrow> walk_node directory (Dir es))"

definition find_markdown_files :: "os \<Rightarrow> pystr \<Rightarrow> pystr list" where
  "find_markdown_files os directory =
     concat (map (\<lambda>(root, dirs, files).
                    map (\<lambda>file. path_join root file)
                        (filter (\<lambda>file. endswith file (str ''.md'')) files))
                 (os_walk os directory))"


section \<open>\<open>extract_links\<close>\<close>

datatype py_exception = FileReadError pystr | UncaughtError pystr

text \<open>\<open>open(file_path, 'r', encoding='utf-8')\<close> and \<open>f.read()\<close>; a failure raises.\<close>

definition read_text :: "os \<Rightarrow> pystr \<Rightarrow> py_exception + pystr" where
  "read_text os file_path =
     (case stat os file_path of
        Some (File (Some content)) \<Rightarrow> Inr content
      | Some (File None) \<Rightarrow> Inl (FileReadError file_path)
      | Some (Dir es) \<Rightarrow> Inl (FileReadError file_path)
      | None \<Rightarrow> Inl (FileReadError file_path))"

text \<open>
  One match of a pattern with two groups: the matched text and the two groups.
\<close>

record rematch =
  group0 :: pystr
  group1 :: pystr
  group2 :: pystr

definition newline :: nat where
  "newline = 0x0A"

text \<open>
  The pattern \<open>\[([^\]]*)\]\(([^)]+)\)\<close> tried at the start of \<open>s\<close>; the result is the
  match and the text after it. Each bracket class is followed by the character it
  excludes, so only its longest run can be continued: giving characters back never helps.
\<close>

definition match_markdown :: "pystr \<Rightarrow> (rematch \<times> pystr) option" where
  "match_markdown s =
     (case s of
        [] \<Rightarrow> None
      | c # r1 \<Rightarrow>
          if c \<noteq> ord CHR ''['' then None
          else
            let txt = takeWhile (\<lambda>x. x \<noteq> ord CHR '']'') r1;
                r2 = dropWhile (\<lambda>x. x \<noteq> ord CHR '']'') r1
            in (case r2 of
                  [] \<Rightarrow> None
                | [b] \<Rightarrow> None
                | b # p # r3 \<Rightarrow>
                    if p \<noteq> ord CHR ''('' then None
                    else
                      let url = takeWhile (\<lambda>x. x \<noteq> ord CHR '')'') r3;
                          r4 = dropWhile (\<lambda>x. x \<noteq> ord CHR '')'') r3
                      in if url = [] then None
                         else (case r4 of
                                 [] \<Rightarrow> None
                               | q # rest \<Rightarrow>
                                   Some (\<lparr>group0 = c # txt @ b # p # url @ [q],
                                          group1 = txt, group2 = url\<rparr>, rest))))"

text \<open>
  The end of the second pattern, \<open>(.+)\<close>: the longest run of characters other than a
  newline, at least one.
\<close>

definition dot_plus :: "pystr \<Rightarrow> (pystr \<times> pystr) option" where
  "dot_plus r =
     (case r of
        [] \<Rightarrow> None
      | x # xs \<Rightarrow>
          if x = newline then None
          else Some (takeWhile (\<lambda>y. y \<noteq> newline) r, dropWhile (\<lambda>y. y \<noteq> newline) r))"

text \<open>
  \<open>\s*(.+)\<close> with backtracking: \<open>\s*\<close> holds the first \<open>k\<close> characters of \<open>r\<close> and gives
  them back one at a time until \<open>(.+)\<close> matches what follows. The result is the
  whitespace kept, the second group and the text after the match.
\<close>

primrec ws_star_dot_plus :: "pystr \<Rightarrow> nat \<Rightarrow> (pystr \<times> pystr \<times> pystr) option" where
  "ws_star_dot_plus r 0 =
     (case dot_plus r of None \<Rightarrow> None | Some (target, rest) \<Rightarrow> Some ([], target, rest))"
| "ws_star_dot_plus r (Suc k) =
     (case dot_plus (drop (Suc k) r) of
        Some (target, rest) \<Rightarrow> Some (take (Suc k) r, target, rest)
      | None \<Rightarrow> ws_star_dot_plus r k)"

text \<open>
  The pattern \<open>\[([^\]]+)\]:\s*(.+)\<close> tried at the start of \<open>s\<close>. \<open>\s*\<close> starts from the
  longest run of whitespace.
\<close>

definition match_reference :: "pystr \<Rightarrow> (rematch \<times> pystr) option" where
  "match_reference s =
     (case s of
        [] \<Rightarrow> None
      | c # r1 \<Rightarrow>
          if c \<noteq> ord CHR ''['' then None
          else
            let ref = takeWhile (\<lambda>x. x \<noteq> ord CHR '']'') r1;
                r2 = dropWhile (\<lambda>x. x \<noteq> ord CHR '']'') r1
            in if ref = [] then None
               else (case r2 of
                  [] \<Rightarrow> None
                | [b] \<Rightarrow> None
                | b # p # r3 \<Rightarrow>
                    if p \<noteq> ord CHR '':'' then None
                    else (case ws_star_dot_plus r3 (length (takeWhile isspace r3)) of
                            None \<Rightarrow> None
                          | Some (ws, target, rest) \<Rightarrow>
                              Some (\<lparr>group0 = c # ref @ b # p # ws @ target,
                                     group1 = ref, group2 = target\<rparr>, rest))))"

text \<open>What a match of either pattern looks like; each match consumes at least one character.\<close>

lemma dot_plus_decomp:
  assumes "dot_plus r = Some (target, rest)"
  shows "r = target @ rest \<and> target \<noteq> [] \<and> newline \<notin> set target \<and>
     (rest = [] \<or> hd rest = newline)"
proof -
  from assms obtain x xs where r: "r = x # xs" and x: "x \<noteq> newline"
    and t: "target = takeWhile (\<lambda>y. y \<noteq> newline) r"
    and d: "rest = dropWhile (\<lambda>y. y \<noteq> newline) r"
    by (auto simp: dot_plus_def split: list.splits if_splits)
  have 1: "r = target @ rest" unfolding t d by simp
  have 2: "target \<noteq> []" unfolding t r using x by simp
  have 3: "newline \<notin> set target" unfolding t by (auto dest: set_takeWhileD)
  have 4: "rest = [] \<or> hd rest = newline"
    unfolding d using hd_dropWhile[of "\<lambda>y. y \<noteq> newline" r] by blast
  from 1 2 3 4 show ?thesis by blast
qed

lemma take_length_take: "take (length (take n r)) r = take n r"
  by (simp add: min_def)

lemma ws_star_dot_plus_decomp:
  "ws_star_dot_plus r k = Some (ws, target, rest) \<Longrightarrow>
     r = ws @ target @ rest \<and> ws = take (length ws) r \<and> length ws \<le> k \<and>
     target \<noteq> [] \<and> newline \<notin> set target \<and> (rest = [] \<or> hd rest = newline)"
proof (induction k)
  case 0
  then obtain t rs where "dot_plus r = Some (t, rs)" "ws = []" "target = t" "rest = rs"
    by (auto split: option.splits)
  with dot_plus_decomp[of r t rs] show ?case by simp
next
  case (Suc k)
  show ?case
  proof (cases "dot_plus (drop (Suc k) r)")
    case None
    with Suc.prems have "ws_star_dot_plus r k = Some (ws, target, rest)" by simp
    from Suc.IH[OF this] show ?thesis by simp
  next
    case (Some a)
    obtain t rs where a: "a = (t, rs)" by (cases a)
    from Some a Suc.prems have eq: "ws = take (Suc k) r" "target = t" "rest = rs" by simp_all
    from Some a have "dot_plus (drop (Suc k) r) = Some (t, rs)" by simp
    from dot_plus_decomp[OF this]
    have d: "drop (Suc k) r = t @ rs" "t \<noteq> []" "newline \<notin> set t" "rs = [] \<or> hd rs = newline"
      by simp_all
    have "r = take (Suc k) r @ drop (Suc k) r" by (rule append_take_drop_id[symmetric])
    with d(1) have r: "r = take (Suc k) r @ t @ rs" by simp
    have l: "length (take (Suc k) r) \<le> Suc k" by simp
    show ?thesis unfolding eq using r d(2,3,4) l take_length_take[of "Suc k" r] by simp
  qed
qed


lemma takeWhile_isspace_all: "ws = take (length ws) r \<Longrightarrow> length ws \<le> length (takeWhile isspace r) \<Longrightarrow> c \<in> set ws \<Longrightarrow> isspace c"
proof -
  assume a: "ws = take (length ws) r" and b: "length ws \<le> length (takeWhile isspace r)" and c: "c \<in> set ws"
  have "take (length ws) r = take (length ws) (takeWhile isspace r @ dropWhile isspace r)" by simp
  also have "\<dots> = take (length ws) (takeWhile isspace r)" using b by (simp del: takeWhile_dropWhile_id)
  finally have "ws = take (length ws) (takeWhile isspace r)" using a by simp
  then have "set ws \<subseteq> set (takeWhile isspace r)" by (metis set_take_subset)
  with c show ?thesis by (auto dest: set_takeWhileD)
qed

lemma match_reference_decomp:
  assumes "match_reference s = Some (m, rest)"
  shows "\<exists>ws. s = group0 m @ rest \<and>
           group0 m = ord CHR ''['' # group1 m @ ord CHR '']'' # ord CHR '':'' # ws @ group2 m \<and>
           (\<forall>c\<in>set ws. isspace c) \<and>
           group1 m \<noteq> [] \<and> ord CHR '']'' \<notin> set (group1 m) \<and>
           group2 m \<noteq> [] \<and> newline \<notin> set (group2 m) \<and> (rest = [] \<or> hd rest = newline)"
proof -
  let ?P = "\<lambda>x. x \<noteq> ord CHR '']''"
  from assms obtain c r1 where s: "s = c # r1" and c: "c = ord CHR ''[''"
    by (cases s) (auto simp: match_reference_def split: if_splits)
  define ref where "ref = takeWhile ?P r1"
  define r2 where "r2 = dropWhile ?P r1"
  from assms s c have ref_ne: "ref \<noteq> []"
    by (auto simp: match_reference_def ref_def Let_def split: if_splits)
  from assms s c ref_ne obtain b p r3 where r2: "r2 = b # p # r3" and p: "p = ord CHR '':''"
    by (auto simp: match_reference_def ref_def[symmetric] r2_def[symmetric] Let_def
             split: if_splits list.splits)
  from assms s c ref_ne r2 p obtain ws target where
    w: "ws_star_dot_plus r3 (length (takeWhile isspace r3)) = Some (ws, target, rest)"
    and m: "m = \<lparr>group0 = c # ref @ b # p # ws @ target, group1 = ref, group2 = target\<rparr>"
    by (auto simp: match_reference_def ref_def[symmetric] r2_def[symmetric] Let_def
             split: if_splits option.splits)
  from ws_star_dot_plus_decomp[OF w]
  have d: "r3 = ws @ target @ rest" "ws = take (length ws) r3"
    "length ws \<le> length (takeWhile isspace r3)" "target \<noteq> []" "newline \<notin> set target"
    "rest = [] \<or> hd rest = newline" by blast+
  have b: "b = ord CHR '']''"
    using hd_dropWhile[of ?P r1] r2 unfolding r2_def by auto
  have r1: "r1 = ref @ r2" unfolding ref_def r2_def by simp
  have nr: "ord CHR '']'' \<notin> set ref" unfolding ref_def by (auto dest: set_takeWhileD)
  have sp: "\<forall>x\<in>set ws. isspace x" using takeWhile_isspace_all[OF d(2) d(3)] by blast
  have "s = group0 m @ rest" using s r1 r2 d(1) m by simp
  then show ?thesis using m c b p sp ref_ne nr d(4,5,6) by auto
qed

lemma match_markdown_decomp:
  assumes "match_markdown s = Some (m, rest)"
  shows "s = group0 m @ rest \<and>
         group0 m = ord CHR ''['' # group1 m @ ord CHR '']'' # ord CHR ''('' # group2 m @ [ord CHR '')''] \<and>
         ord CHR '']'' \<notin> set (group1 m) \<and> group2 m \<noteq> [] \<and> ord CHR '')'' \<notin> set (group2 m)"
proof -
  let ?P = "\<lambda>x. x \<noteq> ord CHR '']''"
  let ?Q = "\<lambda>x. x \<noteq> ord CHR '')''"
  from assms obtain c r1 where s: "s = c # r1" and c: "c = ord CHR ''[''"
    by (cases s) (auto simp: match_markdown_def split: if_splits)
  define tx where "tx = takeWhile ?P r1"
  define r2 where "r2 = dropWhile ?P r1"
  from assms s c obtain b p r3 where r2: "r2 = b # p # r3" and p: "p = ord CHR ''(''"
    by (auto simp: match_markdown_def tx_def[symmetric] r2_def[symmetric] Let_def
             split: if_splits list.splits)
  define url where "url = takeWhile ?Q r3"
  define r4 where "r4 = dropWhile ?Q r3"
  from assms s c r2 p have url_ne: "url \<noteq> []"
    by (auto simp: match_markdown_def tx_def[symmetric] r2_def[symmetric] url_def Let_def
             split: if_splits)
  from assms s c r2 p url_ne obtain q where r4: "r4 = q # rest"
    and m: "m = \<lparr>group0 = c # tx @ b # p # url @ [q], group1 = tx, group2 = url\<rparr>"
    by (cases r4)
       (auto simp: match_markdown_def tx_def[symmetric] r2_def[symmetric] url_def[symmetric]
             r4_def[symmetric] Let_def split: if_splits)
  have b: "b = ord CHR '']''"
    using hd_dropWhile[of ?P r1] r2 unfolding r2_def by auto
  have q: "q = ord CHR '')''"
    using hd_dropWhile[of ?Q r3] r4 unfolding r4_def by auto
  have r1: "r1 = tx @ r2" unfolding tx_def r2_def by simp
  have r3: "r3 = url @ r4" unfolding url_def r4_def by simp
  have n1: "ord CHR '']'' \<notin> set tx" unfolding tx_def by (auto dest: set_takeWhileD)
  have n2: "ord CHR '')'' \<notin> set url" unfolding url_def by (auto dest: set_takeWhileD)
  have "s = group0 m @ rest" using s r1 r2 r3 r4 m by simp
  then show ?thesis using m c b p q url_ne n1 n2 by auto
qed

lemma match_reference_shorter: "match_reference s = Some (m, rest) \<Longrightarrow> length rest < length s"
proof -
  assume "match_reference s = Some (m, rest)"
  from match_reference_decomp[OF this] obtain xs where "s = group0 m @ rest" "group0 m = ord CHR ''['' # xs" by blast
  then have a: "s = group0 m @ rest" and b: "group0 m \<noteq> []" by simp_all
  have "length s = length (group0 m) + length rest" by (subst a) simp
  moreover have "0 < length (group0 m)" using b by simp
  ultimately show ?thesis by simp
qed

lemma match_markdown_shorter: "match_markdown s = Some (m, rest) \<Longrightarrow> length rest < length s"
proof -
  assume "match_markdown s = Some (m, rest)"
  from match_markdown_decomp[OF this] obtain xs where "s = group0 m @ rest" "group0 m = ord CHR ''['' # xs" by blast
  then have a: "s = group0 m @ rest" and b: "group0 m \<noteq> []" by simp_all
  have "length s = length (group0 m) + length rest" by (subst a) simp
  moreover have "0 < length (group0 m)" using b by simp
  ultimately show ?thesis by simp
qed

text \<open>
  \<open>re.finditer\<close>: the scan tries the pattern at each position from the left and, after
  a match, goes on from the end of that match. Neither pattern matches the empty string.
\<close>

function finditer_markdown :: "pystr \<Rightarrow> rematch list" where
  "finditer_markdown [] = []"
| "finditer_markdown (c # cs) =
     (case match_markdown (c # cs) of
        None \<Rightarrow> finditer_markdown cs
      | Some (m, rest) \<Rightarrow> m # finditer_markdown rest)"
  by pat_completeness auto
termination
  by (relation "measure length") (auto dest: match_markdown_shorter)

function finditer_reference :: "pystr \<Rightarrow> rematch list" where
  "finditer_reference [] = []"
| "finditer_reference (c # cs) =
     (case match_reference (c # cs) of
        None \<Rightarrow> finditer_reference cs
      | Some (m, rest) \<Rightarrow> m # finditer_reference rest)"
  by pat_completeness auto
termination
  by (relation "measure length") (auto dest: match_reference_shorter)

text \<open>\<open>re.findall\<close> with a pattern of two groups: the pair of groups of every match.\<close>

definition findall_markdown :: "pystr \<Rightarrow> (pystr \<times> pystr) list" where
  "findall_markdown content = map (\<lambda>m. (group1 m, group2 m)) (finditer_markdown content)"

definition findall_reference :: "pystr \<Rightarrow> (pystr \<times> pystr) list" where
  "findall_reference content = map (\<lambda>m. (group1 m, group2 m)) (finditer_reference content)"

datatype link_kind = Markdown | Reference

text \<open>The dictionary of a link: its keys \<open>'text'\<close>, \<open>'url'\<close>, \<open>'line'\<close> and \<open>'type'\<close>.\<close>

record link =
  text_of :: pystr
  url_of :: pystr
  line_of :: "nat option"
  type_of :: link_kind

text \<open>Lines 33 to 52: the links of a file's content, the two passes one after the other.\<close>

definition markdown_links :: "pystr \<Rightarrow> link list" where
  "markdown_links content =
     map (\<lambda>(t, url). \<lparr>text_of = t, url_of = url, line_of = None, type_of = Markdown\<rparr>)
         (findall_markdown content)"

definition ref_links :: "pystr \<Rightarrow> link list" where
  "ref_links content =
     map (\<lambda>(ref, url).
            \<lparr>text_of = ref, url_of = strip url, line_of = None, type_of = Reference\<rparr>)
         (findall_reference content)"

definition extract_links :: "os \<Rightarrow> pystr \<Rightarrow> py_exception + link list" where
  "extract_links os file_path =
     (case read_text os file_path of
        Inl e \<Rightarrow> Inl e
      | Inr content \<Rightarrow> Inr (markdown_links content @ ref_links content))"


section \<open>\<open>validate_external_link\<close>\<close>

text \<open>
  The network is what answers a request, given the requests made before it. An answer is
  a response with its status code (after redirects), or an exception, classified by the
  first \<open>except\<close> clause that catches it: \<open>Timeout\<close> stands for
  \<open>requests.exceptions.Timeout\<close> and its subclasses, \<open>ConnectionError\<close> for a
  \<open>ConnectionError\<close> that is not a \<open>Timeout\<close>, \<open>RequestException msg\<close> for any other
  \<open>RequestException\<close> (\<open>msg\<close> is \<open>str(e)\<close>), and \<open>OtherException\<close> for an exception
  no clause catches. The requests a function makes are appended to the log it is given.
\<close>

datatype http_method = HEAD | GET

datatype request_error =
  Timeout | ConnectionError | RequestException pystr | OtherException pystr

datatype http_outcome = Response int | Raises request_error

type_synonym request = "http_method \<times> pystr"

type_synonym session = "request list \<Rightarrow> request \<Rightarrow> http_outcome"

text \<open>Lines 101 to 106: the \<open>except\<close> clauses.\<close>

fun handle_request_error :: "request_error \<Rightarrow> py_exception + (bool \<times> pystr)" where
  "handle_request_error Timeout = Inr (False, str ''Timeout'')"
| "handle_request_error ConnectionError = Inr (False, str ''Connection error'')"
| "handle_request_error (RequestException msg) = Inr (False, str ''Request error: '' @ msg)"
| "handle_request_error (OtherException msg) = Inl (UncaughtError msg)"

definition validate_external_link ::
  "pystr \<Rightarrow> session \<Rightarrow> request list \<Rightarrow> (py_exception + (bool \<times> pystr)) \<times> request list" where
  "validate_external_link url session log =
     (let log1 = log @ [(HEAD, url)] in
      case session log (HEAD, url) of
        Raises e \<Rightarrow> (handle_request_error e, log1)
      | Response status_code \<Rightarrow>
          if status_code < 400
          then (Inr (True, str ''HTTP '' @ str_of_int status_code), log1)
          else
            (let log2 = log1 @ [(GET, url)] in
             case session log1 (GET, url) of
               Raises e \<Rightarrow> (handle_request_error e, log2)
             | Response status_code2 \<Rightarrow>
                 if status_code2 < 400
                 then (Inr (True, str ''HTTP '' @ str_of_int status_code2 @ str '' (GET)''), log2)
                 else (Inr (False, str ''HTTP '' @ str_of_int status_code2), log2)))"


section \<open>\<open>validate_links\<close> and \<open>main\<close>\<close>

record broken =
  broken_file :: pystr
  broken_url :: pystr
  broken_text :: pystr
  broken_reason :: pystr
  broken_type :: pystr

text \<open>The state of the loops: the two counters of the function and the log of requests.\<close>

record run =
  total_links :: nat
  broken_links :: "broken list"
  requests :: "request list"

text \<open>
  Lines 131 to 169: the body of the loop over a file's links. The pause after an external
  check and the progress lines printed change none of the values modelled and are left out.
\<close>

definition check_link ::
  "os \<Rightarrow> session \<Rightarrow> bool \<Rightarrow> pystr \<Rightarrow> pystr \<Rightarrow> link \<Rightarrow> run \<Rightarrow> py_exception + run" where
  "check_link os session check_external docs_directory file_path lnk st =
     (let url = strip (url_of lnk) in
      if url = [] then Inr st
      else if startswith url (str ''mailto:'') then Inr st
      else if startswith url (str ''javascript:'') then Inr st
      else if startswith url (str ''http://'') \<or> startswith url (str ''https://'') then
        (if check_external then
           (case validate_external_link url session (requests st) of
              (Inl e, log) \<Rightarrow> Inl e
            | (Inr (is_valid, reason), log) \<Rightarrow>
                Inr (if \<not> is_valid
                     then st\<lparr>broken_links := broken_links st @
                                [\<lparr>broken_file = file_path, broken_url = url,
                                  broken_text = text_of lnk, broken_reason = reason,
                                  broken_type = str ''external''\<rparr>],
                             requests := log\<rparr>
                     else st\<lparr>requests := log\<rparr>))
         else Inr st)
      else
        (case fst (validate_local_link os url file_path docs_directory) of
           (is_valid, reason) \<Rightarrow>
             Inr (if \<not> is_valid
                  then st\<lparr>broken_links := broken_links st @
                             [\<lparr>broken_file = file_path, broken_url = url,
                               broken_text = text_of lnk, broken_reason = reason,
                               broken_type = str ''local''\<rparr>]\<rparr>
                  else st)))"

text \<open>Line 130: the loop over the links of one file; an exception ends it.\<close>

fun check_links ::
  "os \<Rightarrow> session \<Rightarrow> bool \<Rightarrow> pystr \<Rightarrow> pystr \<Rightarrow> link list \<Rightarrow> run \<Rightarrow> py_exception + run" where
  "check_links os session check_external docs_directory file_path [] st = Inr st"
| "check_links os session check_external docs_directory file_path (lnk # links) st =
     (case check_link os session check_external docs_directory file_path lnk st of
        Inl e \<Rightarrow> Inl e
      | Inr st' \<Rightarrow> check_links os session check_external docs_directory file_path links st')"

text \<open>Lines 124 to 128: the loop over the files.\<close>

fun check_files ::
  "os \<Rightarrow> session \<Rightarrow> bool \<Rightarrow> pystr \<Rightarrow> pystr list \<Rightarrow> run \<Rightarrow> py_exception + run" where
  "check_files os session check_external docs_directory [] st = Inr st"
| "check_files os session check_external docs_directory (file_path # files) st =
     (case extract_links os file_path of
        Inl e \<Rightarrow> Inl e
      | Inr links \<Rightarrow>
          (case check_links os session check_external docs_directory file_path links
                  (st\<lparr>total_links := total_links st + length links\<rparr>) of
             Inl e \<Rightarrow> Inl e
           | Inr st' \<Rightarrow> check_files os session check_external docs_directory files st'))"

text \<open>
  \<open>validate_links\<close> returns its boolean; the final state is returned with it, for the
  totals the function prints.
\<close>

definition validate_links :: "os \<Rightarrow> session \<Rightarrow> pystr \<Rightarrow> bool \<Rightarrow> py_exception + (bool \<times> run)" where
  "validate_links os session docs_directory check_external =
     (let markdown_files = find_markdown_files os docs_directory in
      case check_files os session check_external docs_directory markdown_files
             \<lparr>total_links = 0, broken_links = [], requests = []\<rparr> of
        Inl e \<Rightarrow> Inl e
      | Inr st \<Rightarrow> Inr (length (broken_links st) = 0, st))"

text \<open>\<open>main\<close>, with the two parsed arguments as parameters.\<close>

definition main :: "os \<Rightarrow> session \<Rightarrow> pystr \<Rightarrow> bool \<Rightarrow> py_exception + int" where
  "main os session docs_dir skip_external =
     (if \<not> path_exists os docs_dir then Inr 1
      else
        let check_external = \<not> skip_external in
        case validate_links os session docs_dir check_external of
          Inl e \<Rightarrow> Inl e
        | Inr (success, st) \<Rightarrow> Inr (if success then 0 else 1))"

text \<open>
  Line 208, \<open>sys.exit(main())\<close>: the process exits with what \<open>main\<close> returns (0 or 1),
  and with status 1 when an exception is not caught.
\<close>

definition exit_status :: "py_exception + int \<Rightarrow> int" where
  "exit_status r = (case r of Inl e \<Rightarrow> 1 | Inr code \<Rightarrow> code)"


section \<open>An example tree\<close>

text \<open>
  A documentation directory \<open>/docs\<close> with an index, a subdirectory that has an index of its
  own, an empty subdirectory and a file that is not Markdown; the process runs in \<open>/\<close>.
\<close>

definition example_os :: os where
  "example_os =
     \<lparr>fs_root =
        Dir [(str ''docs'',
              Dir [(str ''index.md'',
                    File (Some (str ''[home](/index.md) [mail](mailto:a@b.c) [gone](missing.md)''))),
                   (str ''guide'', Dir [(str ''index.md'', File (Some (str ''[up](../index.md#top)'')))]),
                   (str ''empty'', Dir []),
                   (str ''notes.txt'', File (Some (str ''[x](nowhere.md)'')))])],
      getcwd = str ''/''\<rparr>"

text \<open>The links of the two Markdown files of the tree, and the one entry the run reports.\<close>

definition home_link :: link where
  "home_link = \<lparr>text_of = str ''home'', url_of = str ''/index.md'', line_of = None, type_of = Markdown\<rparr>"

definition mail_link :: link where
  "mail_link = \<lparr>text_of = str ''mail'', url_of = str ''mailto:a@b.c'', line_of = None, type_of = Markdown\<rparr>"

definition gone_link :: link where
  "gone_link = \<lparr>text_of = str ''gone'', url_of = str ''missing.md'', line_of = None, type_of = Markdown\<rparr>"

definition up_link :: link where
  "up_link = \<lparr>text_of = str ''up'', url_of = str ''../index.md#top'', line_of = None, type_of = Markdown\<rparr>"

definition gone_entry :: broken where
  "gone_entry = \<lparr>broken_file = str ''docs/index.md'', broken_url = str ''missing.md'',
       broken_text = str ''gone'', broken_reason = str ''File not found: /docs/missing.md'',
       broken_type = str ''local''\<rparr>"

text \<open>
  A network: one address times out, one answers 500 to \<open>HEAD\<close> and 200 to \<open>GET\<close>, one
  answers 404 to both, and every other address answers 200.
\<close>

definition example_session :: session where
  "example_session log req =
     (case req of
        (m, url) \<Rightarrow>
          if url = str ''https://example.com/slow'' then Raises Timeout
          else if url = str ''https://example.com/nohead''
          then (case m of HEAD \<Rightarrow> Response 500 | GET \<Rightarrow> Response 200)
          else if url = str ''https://example.com/dead'' then Response 404
          else Response 200)"

text \<open>
  A reference definition whose target stands on the line after its label, and the link
  extracted from it.
\<close>

definition two_line_definition :: pystr where
  "two_line_definition = str ''[a]:'' @ [newline] @ str ''b c '' @ [newline] @ str ''tail''"

definition later_line_link :: link where
  "later_line_link = \<lparr>text_of = str ''a'', url_of = str ''b c'', line_of = None, type_of = Reference\<rparr>"

text \<open>A match lies on one line when the matched text holds no newline.\<close>

definition single_line_match :: "rematch \<Rightarrow> bool" where
  "single_line_match m \<longleftrightarrow> newline \<notin> set (group0 m)"


section \<open>Notions the properties are stated with\<close>

text \<open>
  A target the loop skips, a target it checks over the network, the links of a file (none
  when reading it fails), and what it means for an entry of the broken-links list to record
  the failed check of a link: the entry carries the link's file, trimmed target and text,
  the target is not a skipped one, and the entry's reason is the reason of an invalid
  outcome of the validator for that target.
\<close>

definition skipped :: "pystr \<Rightarrow> bool" where
  "skipped url \<longleftrightarrow>
     url = [] \<or> startswith url (str ''mailto:'') \<or> startswith url (str ''javascript:'')"

definition external :: "pystr \<Rightarrow> bool" where
  "external url \<longleftrightarrow> startswith url (str ''http://'') \<or> startswith url (str ''https://'')"

definition links_in :: "os \<Rightarrow> pystr \<Rightarrow> link list" where
  "links_in os file_path = (case extract_links os file_path of Inl e \<Rightarrow> [] | Inr links \<Rightarrow> links)"

definition checked_entry ::
  "os \<Rightarrow> session \<Rightarrow> bool \<Rightarrow> pystr \<Rightarrow> pystr \<Rightarrow> link \<Rightarrow> broken \<Rightarrow> bool" where
  "checked_entry os session check_external docs_directory file_path lnk b \<longleftrightarrow>
     broken_file b = file_path \<and> broken_url b = strip (url_of lnk) \<and>
     broken_text b = text_of lnk \<and> \<not> skipped (strip (url_of lnk)) \<and>
     (if external (strip (url_of lnk))
      then check_external \<and> broken_type b = str ''external'' \<and>
           (\<exists>log. fst (validate_external_link (strip (url_of lnk)) session log) =
                    Inr (False, broken_reason b))
      else broken_type b = str ''local'' \<and>
           fst (validate_local_link os (strip (url_of lnk)) file_path docs_directory) =
             (False, broken_reason b))"


section \<open>Properties of \<open>validate_local_link\<close>\<close>

lemma path_isdir_exists: "path_isdir os p \<Longrightarrow> path_exists os p"
  by (auto simp: path_isdir_def path_exists_def split: option.splits node.splits)

text \<open>
  Claim C1 says that a target resolving to an existing directory is valid exactly when the
  directory holds an \<open>index.md\<close>. The function as written does otherwise: here the target
  \<open>empty/\<close> resolves to the directory \<open>/docs/empty\<close>, which has no \<open>index.md\<close>, and the
  outcome is valid with reason \<open>File exists\<close>, after the one call \<open>os.path.exists\<close>.
\<close>

theorem directory_without_index_is_valid:
  "path_isdir example_os (str ''/docs/empty'') \<and>
   \<not> path_exists example_os (str ''/docs/empty/index.md'') \<and>
   validate_local_link example_os (str ''empty/'') (str ''/docs/index.md'') (str ''/docs'') =
     ((True, str ''File exists''), [Exists (str ''/docs/empty'')])"
  by code_simp

text \<open>
  Claim C2: whenever the resolved path exists, as a regular file or as a directory, the
  outcome is valid with reason \<open>File exists\<close>; and no call of the function ever returns the
  reason \<open>Directory with index.md\<close>.
\<close>

theorem existing_path_is_file_exists:
  "(split_first (ord CHR ''#'') link_url \<noteq> [] \<and>
    path_exists os (local_full_path os (split_first (ord CHR ''#'') link_url) base_path docs_root)
    \<longrightarrow> fst (validate_local_link os link_url base_path docs_root) = (True, str ''File exists''))
   \<and> snd (fst (validate_local_link os link_url base_path docs_root)) \<noteq> str ''Directory with index.md''"
proof -
  have a: "str ''Fragment only'' \<noteq> str ''Directory with index.md''"
    "str ''File exists'' \<noteq> str ''Directory with index.md''"
    "\<And>p. str ''File not found: '' @ p \<noteq> str ''Directory with index.md''"
    by (simp_all add: str_def ord_def)
  show ?thesis
    using a by (auto simp: validate_local_link_def Let_def dest: path_isdir_exists)
qed

theorem existing_path_is_file_exists_witness:
  "path_isdir example_os (str ''/docs/guide'') \<and>
   path_exists example_os (str ''/docs/guide/index.md'') \<and>
   fst (validate_local_link example_os (str ''guide/'') (str ''/docs/index.md'') (str ''/docs'')) =
     (True, str ''File exists'')"
proof -
  have h: "split_first (ord CHR ''#'') (str ''guide/'') \<noteq> [] \<and>
    path_exists example_os (local_full_path example_os (split_first (ord CHR ''#'') (str ''guide/''))
       (str ''/docs/index.md'') (str ''/docs''))"
    by code_simp
  have k: "path_isdir example_os (str ''/docs/guide'') \<and>
   path_exists example_os (str ''/docs/guide/index.md'')" by code_simp
  from existing_path_is_file_exists[of "str ''guide/''" example_os "str ''/docs/index.md''" "str ''/docs''"] h k
  show ?thesis by blast
qed

text \<open>
  Claim C6: take a target whose part before \<open>#\<close> starts with \<open>/\<close>, so that it is resolved
  against the documentation root (leading slashes removed, joined to the root, made
  absolute), and a target whose part before \<open>#\<close> is not empty and does not start with \<open>/\<close>,
  so that it is resolved against the directory of the containing document. When both
  resolve to the same path and that path is an existing regular file, both outcomes are
  valid.
\<close>

theorem both_forms_valid:
  assumes "stat os p = Some (File c)"
    and "startswith (split_first (ord CHR ''#'') root_form) (str ''/'')"
    and "split_first (ord CHR ''#'') rel_form \<noteq> []"
    and "\<not> startswith (split_first (ord CHR ''#'') rel_form) (str ''/'')"
    and "abspath os (path_join docs_root
           (lstrip_chr (ord CHR ''/'') (split_first (ord CHR ''#'') root_form))) = p"
    and "abspath os (path_join (path_dirname base_path)
           (split_first (ord CHR ''#'') rel_form)) = p"
  shows "fst (validate_local_link os root_form base_path docs_root) = (True, str ''File exists'') \<and>
         fst (validate_local_link os rel_form base_path docs_root) = (True, str ''File exists'')"
proof -
  from assms(1) have e: "path_exists os p" by (simp add: path_exists_def)
  from assms(2) have n: "split_first (ord CHR ''#'') root_form \<noteq> []"
    by (auto simp: startswith_def str_def)
  from assms(2,5) have r:
    "local_full_path os (split_first (ord CHR ''#'') root_form) base_path docs_root = p"
    by (simp add: local_full_path_def)
  from assms(4,6) have l:
    "local_full_path os (split_first (ord CHR ''#'') rel_form) base_path docs_root = p"
    by (simp add: local_full_path_def)
  have 1: "fst (validate_local_link os root_form base_path docs_root) = (True, str ''File exists'')"
    using e n r by (simp add: validate_local_link_def Let_def)
  have 2: "fst (validate_local_link os rel_form base_path docs_root) = (True, str ''File exists'')"
    using e assms(3) l by (simp add: validate_local_link_def Let_def)
  from 1 2 show ?thesis by (rule conjI)
qed

theorem both_forms_valid_witness:
  "stat example_os (str ''/docs/index.md'') =
     Some (File (Some (str ''[home](/index.md) [mail](mailto:a@b.c) [gone](missing.md)''))) \<and>
   abspath example_os (path_join (str ''docs'') (str ''index.md'')) = str ''/docs/index.md'' \<and>
   abspath example_os (path_join (path_dirname (str ''docs/guide/index.md'')) (str ''../index.md'')) =
     str ''/docs/index.md'' \<and>
   fst (validate_local_link example_os (str ''/index.md'') (str ''docs/guide/index.md'')
          (str ''docs'')) = (True, str ''File exists'') \<and>
   fst (validate_local_link example_os (str ''../index.md#top'') (str ''docs/guide/index.md'')
          (str ''docs'')) = (True, str ''File exists'')"
proof -
  have 1: "stat example_os (str ''/docs/index.md'') =
     Some (File (Some (str ''[home](/index.md) [mail](mailto:a@b.c) [gone](missing.md)'')))"
    by code_simp
  have 2: "startswith (split_first (ord CHR ''#'') (str ''/index.md'')) (str ''/'')"
    by code_simp
  have 3: "split_first (ord CHR ''#'') (str ''../index.md#top'') \<noteq> []" by code_simp
  have 4: "\<not> startswith (split_first (ord CHR ''#'') (str ''../index.md#top'')) (str ''/'')"
    by code_simp
  have 5: "abspath example_os (path_join (str ''docs'')
             (lstrip_chr (ord CHR ''/'') (split_first (ord CHR ''#'') (str ''/index.md'')))) =
           str ''/docs/index.md''"
    by code_simp
  have 6: "abspath example_os (path_join (path_dirname (str ''docs/guide/index.md''))
             (split_first (ord CHR ''#'') (str ''../index.md#top''))) = str ''/docs/index.md''"
    by code_simp
  have 7: "abspath example_os (path_join (str ''docs'') (str ''index.md'')) = str ''/docs/index.md''"
    by code_simp
  have 8: "abspath example_os (path_join (path_dirname (str ''docs/guide/index.md''))
             (str ''../index.md'')) = str ''/docs/index.md''"
    by code_simp
  note v = both_forms_valid[OF 1 2 3 4 5 6]
  from 1 7 8 v[THEN conjunct1] v[THEN conjunct2] show ?thesis by (intro conjI)
qed

text \<open>
  Claim C7: a target that is empty before its first \<open>#\<close> is valid with reason
  \<open>Fragment only\<close>, whatever the file system holds, and the function makes no call to an
  existence test.
\<close>

theorem fragment_only_is_valid:
  "split_first (ord CHR ''#'') link_url = [] \<Longrightarrow>
   validate_local_link os link_url base_path docs_root = ((True, str ''Fragment only''), [])"
  by (simp add: validate_local_link_def)

theorem fragment_only_is_valid_witness:
  "split_first (ord CHR ''#'') (str ''#intro'') = [] \<and>
   validate_local_link example_os (str ''#intro'') (str ''/docs/index.md'') (str ''/docs'') =
     ((True, str ''Fragment only''), [])"
proof -
  have h: "split_first (ord CHR ''#'') (str ''#intro'') = []" by code_simp
  from fragment_only_is_valid[OF h] h show ?thesis by blast
qed


section \<open>Properties of \<open>validate_external_link\<close>\<close>

text \<open>
  Claim C4: when the \<open>HEAD\<close> request times out, the outcome is invalid with reason
  \<open>Timeout\<close> and the only request made is that \<open>HEAD\<close>; a \<open>GET\<close> request follows the
  \<open>HEAD\<close> exactly when the \<open>HEAD\<close> was answered with a status of 400 or above.
\<close>

theorem head_timeout_no_get:
  "(session log (HEAD, url) = Raises Timeout \<longrightarrow>
      validate_external_link url session log = (Inr (False, str ''Timeout''), log @ [(HEAD, url)]))
   \<and> snd (validate_external_link url session log) =
       (case session log (HEAD, url) of
          Raises e \<Rightarrow> log @ [(HEAD, url)]
        | Response status_code \<Rightarrow>
            if 400 \<le> status_code then log @ [(HEAD, url), (GET, url)] else log @ [(HEAD, url)])"
  by (auto simp: validate_external_link_def Let_def split: http_outcome.splits)

theorem head_timeout_no_get_witness:
  "example_session [] (HEAD, str ''https://example.com/slow'') = Raises Timeout \<and>
   validate_external_link (str ''https://example.com/slow'') example_session [] =
     (Inr (False, str ''Timeout''), [(HEAD, str ''https://example.com/slow'')])"
proof -
  have h: "example_session [] (HEAD, str ''https://example.com/slow'') = Raises Timeout"
    by code_simp
  from head_timeout_no_get[of example_session "[]" "str ''https://example.com/slow''"] h
  show ?thesis by simp
qed

text \<open>
  Claim C5: when \<open>HEAD\<close> is answered with a status of 400 or above, the outcome is that of
  the \<open>GET\<close> request: valid with reason \<open>HTTP <status> (GET)\<close> when its status is below
  400, invalid with reason \<open>HTTP <status>\<close> otherwise.
\<close>

theorem get_fallback:
  assumes "session log (HEAD, url) = Response head_status"
    and "400 \<le> head_status"
    and "session (log @ [(HEAD, url)]) (GET, url) = Response get_status"
  shows "validate_external_link url session log =
           (if get_status < 400
            then Inr (True, str ''HTTP '' @ str_of_int get_status @ str '' (GET)'')
            else Inr (False, str ''HTTP '' @ str_of_int get_status),
            log @ [(HEAD, url), (GET, url)])"
  using assms by (simp add: validate_external_link_def Let_def)

theorem get_fallback_witness:
  "example_session [] (HEAD, str ''https://example.com/nohead'') = Response 500 \<and>
   example_session [(HEAD, str ''https://example.com/nohead'')]
     (GET, str ''https://example.com/nohead'') = Response 200 \<and>
   validate_external_link (str ''https://example.com/nohead'') example_session [] =
     (Inr (True, str ''HTTP 200 (GET)''),
      [(HEAD, str ''https://example.com/nohead''), (GET, str ''https://example.com/nohead'')]) \<and>
   example_session [] (HEAD, str ''https://example.com/dead'') = Response 404 \<and>
   example_session [(HEAD, str ''https://example.com/dead'')]
     (GET, str ''https://example.com/dead'') = Response 404 \<and>
   validate_external_link (str ''https://example.com/dead'') example_session [] =
     (Inr (False, str ''HTTP 404''),
      [(HEAD, str ''https://example.com/dead''), (GET, str ''https://example.com/dead'')])"
proof -
  have 1: "example_session [] (HEAD, str ''https://example.com/nohead'') = Response 500"
    by code_simp
  have 2: "(400::int) \<le> 500" by simp
  have 3: "example_session ([] @ [(HEAD, str ''https://example.com/nohead'')])
             (GET, str ''https://example.com/nohead'') = Response 200"
    by code_simp
  have 4: "str ''HTTP '' @ str_of_int 200 @ str '' (GET)'' = str ''HTTP 200 (GET)''"
    by code_simp
  have 5: "example_session [] (HEAD, str ''https://example.com/dead'') = Response 404"
    by code_simp
  have 6: "(400::int) \<le> 404" by simp
  have 7: "example_session ([] @ [(HEAD, str ''https://example.com/dead'')])
             (GET, str ''https://example.com/dead'') = Response 404"
    by code_simp
  have 8: "str ''HTTP '' @ str_of_int 404 = str ''HTTP 404''"
    by code_simp
  have a: "validate_external_link (str ''https://example.com/nohead'') example_session [] =
     (Inr (True, str ''HTTP 200 (GET)''),
      [(HEAD, str ''https://example.com/nohead''), (GET, str ''https://example.com/nohead'')])"
    using get_fallback[OF 1 2 3] 4 by simp
  have b: "validate_external_link (str ''https://example.com/dead'') example_session [] =
     (Inr (False, str ''HTTP 404''),
      [(HEAD, str ''https://example.com/dead''), (GET, str ''https://example.com/dead'')])"
    using get_fallback[OF 5 6 7] 8 by simp
  from 1 3 a 5 7 b show ?thesis by simp
qed


section \<open>Properties of \<open>extract_links\<close>\<close>

lemma finditer_reference_match:
  "m \<in> set (finditer_reference s) \<Longrightarrow>
     \<exists>pre rest. s = pre @ group0 m @ rest \<and> match_reference (group0 m @ rest) = Some (m, rest)"
proof (induction s rule: finditer_reference.induct)
  case 1
  then show ?case by simp
next
  case (2 c cs)
  show ?case
  proof (cases "match_reference (c # cs)")
    case None
    with "2.prems" have "m \<in> set (finditer_reference cs)" by simp
    from "2.IH"(1)[OF None this] obtain pre rest where
      "cs = pre @ group0 m @ rest" "match_reference (group0 m @ rest) = Some (m, rest)" by blast
    then have "c # cs = (c # pre) @ group0 m @ rest \<and>
               match_reference (group0 m @ rest) = Some (m, rest)" by simp
    then show ?thesis by blast
  next
    case (Some a)
    obtain m' rest' where a: "a = (m', rest')" by (cases a)
    from match_reference_decomp[OF Some[unfolded a]] have d: "c # cs = group0 m' @ rest'" by blast
    from "2.prems" Some a have "m = m' \<or> m \<in> set (finditer_reference rest')" by simp
    then show ?thesis
    proof
      assume "m = m'"
      with d Some a have "c # cs = [] @ group0 m @ rest' \<and>
          match_reference (group0 m @ rest') = Some (m, rest')" by simp
      then show ?thesis by blast
    next
      assume "m \<in> set (finditer_reference rest')"
      from "2.IH"(2)[OF Some a[symmetric] this] obtain pre rest where
        "rest' = pre @ group0 m @ rest" "match_reference (group0 m @ rest) = Some (m, rest)" by blast
      with d have "c # cs = (group0 m' @ pre) @ group0 m @ rest \<and>
          match_reference (group0 m @ rest) = Some (m, rest)" by simp
      then show ?thesis by blast
    qed
  qed
qed

lemma set_strip: "set (strip s) \<subseteq> set s"
proof -
  have "set (dropWhile isspace (rev (dropWhile isspace s))) \<subseteq> set (rev (dropWhile isspace s))"
    by (rule set_dropWhileD[THEN subsetI]) simp
  also have "\<dots> \<subseteq> set s" by (auto dest: set_dropWhileD)
  finally show ?thesis by (simp add: strip_def)
qed

lemma finditer_two_line_definition: "finditer_reference two_line_definition =
     [\<lparr>group0 = str ''[a]:'' @ [newline] @ str ''b c '', group1 = str ''a'', group2 = str ''b c ''\<rparr>]"
  by (simp add: two_line_definition_def str_def ord_def newline_def match_reference_def
        dot_plus_def isspace_def)

lemma ref_links_two_line_definition: "ref_links two_line_definition =
     [\<lparr>text_of = str ''a'', url_of = str ''b c'', line_of = None, type_of = Reference\<rparr>]"
  by (simp add: ref_links_def findall_reference_def finditer_two_line_definition strip_def isspace_def str_def ord_def newline_def)

text \<open>
  Claim C3, as it holds: every link of the reference-definition pass comes from a place in
  the content of the form \<open>[label]:\<close>, then whitespace (possibly none, possibly with line
  breaks), then a raw target; the label is not empty and holds no \<open>]\<close>; the raw target is
  not empty, holds no newline and runs to the end of its line; the link's text is the label
  and its target is the raw target with the surrounding whitespace removed, so the target
  never holds a newline.
\<close>

theorem reference_link_shape:
  "\<forall>l \<in> set (ref_links content).
     \<exists>pre ws raw post.
       content = pre @ [ord CHR ''[''] @ text_of l @ str '']:'' @ ws @ raw @ post \<and>
       text_of l \<noteq> [] \<and> ord CHR '']'' \<notin> set (text_of l) \<and>
       (\<forall>c \<in> set ws. isspace c) \<and>
       raw \<noteq> [] \<and> newline \<notin> set raw \<and> (post = [] \<or> hd post = newline) \<and>
       url_of l = strip raw \<and> newline \<notin> set (url_of l)"
proof
  fix l assume "l \<in> set (ref_links content)"
  then obtain m where m: "m \<in> set (finditer_reference content)"
    and t: "text_of l = group1 m" and u: "url_of l = strip (group2 m)"
    by (auto simp: ref_links_def findall_reference_def)
  from finditer_reference_match[OF m] obtain pre rest where
    c: "content = pre @ group0 m @ rest" and mt: "match_reference (group0 m @ rest) = Some (m, rest)"
    by blast
  from match_reference_decomp[OF mt] obtain ws where
    g: "group0 m = ord CHR ''['' # group1 m @ ord CHR '']'' # ord CHR '':'' # ws @ group2 m"
    and w: "\<forall>c\<in>set ws. isspace c"
    and r1: "group1 m \<noteq> []" and r2: "ord CHR '']'' \<notin> set (group1 m)"
    and r3: "group2 m \<noteq> []" and r4: "newline \<notin> set (group2 m)"
    and r5: "rest = [] \<or> hd rest = newline"
    by blast
  have s: "str '']:'' = [ord CHR '']'', ord CHR '':'']" by (simp add: str_def)
  have A: "content = pre @ [ord CHR ''[''] @ text_of l @ str '']:'' @ ws @ group2 m @ rest"
    unfolding c g t s by simp
  have B: "text_of l \<noteq> []" unfolding t by (rule r1)
  have C: "ord CHR '']'' \<notin> set (text_of l)" unfolding t by (rule r2)
  have D: "newline \<notin> set (url_of l)" using set_strip[of "group2 m"] r4 unfolding u by blast
  show "\<exists>pre ws raw post.
       content = pre @ [ord CHR ''[''] @ text_of l @ str '']:'' @ ws @ raw @ post \<and>
       text_of l \<noteq> [] \<and> ord CHR '']'' \<notin> set (text_of l) \<and>
       (\<forall>c \<in> set ws. isspace c) \<and>
       raw \<noteq> [] \<and> newline \<notin> set raw \<and> (post = [] \<or> hd post = newline) \<and>
       url_of l = strip raw \<and> newline \<notin> set (url_of l)"
    by (rule exI[of _ pre], rule exI[of _ ws], rule exI[of _ "group2 m"], rule exI[of _ rest])
       (intro conjI A B C w r3 r4 r5 u D)
qed

theorem reference_link_shape_witness:
  "later_line_link \<in> set (ref_links two_line_definition) \<and>
   (\<exists>pre ws raw post.
       two_line_definition =
         pre @ [ord CHR ''[''] @ text_of later_line_link @ str '']:'' @ ws @ raw @ post \<and>
       text_of later_line_link \<noteq> [] \<and> ord CHR '']'' \<notin> set (text_of later_line_link) \<and>
       (\<forall>c \<in> set ws. isspace c) \<and>
       raw \<noteq> [] \<and> newline \<notin> set raw \<and> (post = [] \<or> hd post = newline) \<and>
       url_of later_line_link = strip raw \<and> newline \<notin> set (url_of later_line_link))"
proof -
  have h: "later_line_link \<in> set (ref_links two_line_definition)"
    by (simp add: ref_links_two_line_definition later_line_link_def)
  from h reference_link_shape[of two_line_definition, rule_format, OF h]
  show ?thesis by (rule conjI)
qed

text \<open>
  Claim C3 as stated fails: the target need not lie on the line on which the match starts.
  In \<open>two_line_definition\<close> the only match starts with \<open>[a]:\<close> on the first line and its
  target \<open>b c\<close> is on the second.
\<close>

theorem reference_target_on_later_line:
  "finditer_reference two_line_definition =
     [\<lparr>group0 = str ''[a]:'' @ [newline] @ str ''b c '', group1 = str ''a'',
       group2 = str ''b c ''\<rparr>] \<and>
   ref_links two_line_definition = [later_line_link] \<and>
   \<not> list_all single_line_match (finditer_reference two_line_definition)"
  by (simp add: finditer_two_line_definition ref_links_two_line_definition later_line_link_def
        single_line_match_def)


section \<open>Properties of \<open>validate_links\<close> and \<open>main\<close>\<close>

subsection \<open>What the loops do\<close>

lemma check_link_skipped:
  "skipped (strip (url_of lnk)) \<Longrightarrow>
   check_link os session check_external docs_directory file_path lnk st = Inr st"
  by (auto simp: check_link_def skipped_def Let_def)

lemma check_link_effect:
  assumes "check_link os session check_external docs_directory file_path lnk st = Inr st'"
  shows "total_links st' = total_links st \<and>
         (broken_links st' = broken_links st \<or>
          (\<exists>b. broken_links st' = broken_links st @ [b] \<and>
               checked_entry os session check_external docs_directory file_path lnk b))"
proof -
  let ?url = "strip (url_of lnk)"
  show ?thesis
  proof (cases "skipped ?url")
    case True
    from check_link_skipped[OF True] assms show ?thesis by simp
  next
    case ns: False
    then have n: "?url \<noteq> []" "\<not> startswith ?url (str ''mailto:'')"
      "\<not> startswith ?url (str ''javascript:'')" by (simp_all add: skipped_def)
    show ?thesis
    proof (cases "external ?url")
      case True
      then have e: "startswith ?url (str ''http://'') \<or> startswith ?url (str ''https://'')"
        by (simp add: external_def)
      show ?thesis
      proof (cases check_external)
        case False
        with assms n e show ?thesis by (simp add: check_link_def Let_def)
      next
        case ce: True
        obtain r log where v: "validate_external_link ?url session (requests st) = (r, log)"
          by (cases "validate_external_link ?url session (requests st)")
        show ?thesis
        proof (cases r)
          case (Inl x)
          with assms n e ce v show ?thesis by (simp add: check_link_def Let_def)
        next
          case (Inr vr)
          obtain is_valid reason where vr: "vr = (is_valid, reason)" by (cases vr)
          show ?thesis
          proof (cases is_valid)
            case True
            with assms n e ce v Inr vr show ?thesis by (auto simp: check_link_def Let_def)
          next
            case False
            let ?b = "\<lparr>broken_file = file_path, broken_url = ?url,
                        broken_text = text_of lnk, broken_reason = reason,
                        broken_type = str ''external''\<rparr>"
            from assms n e ce v Inr vr False
            have s: "st' = st\<lparr>broken_links := broken_links st @ [?b], requests := log\<rparr>"
              by (auto simp: check_link_def Let_def)
            have F: "fst (validate_external_link ?url session (requests st)) = Inr (False, broken_reason ?b)"
              using v Inr vr False by simp
            have "\<exists>lg. fst (validate_external_link ?url session lg) = Inr (False, broken_reason ?b)"
              by (rule exI[of _ "requests st"]) (rule F)
            then have "checked_entry os session check_external docs_directory file_path lnk ?b"
              using ns True ce by (simp add: checked_entry_def)
            with s show ?thesis by simp
          qed
        qed
      qed
    next
      case False
      then have e: "\<not> (startswith ?url (str ''http://'') \<or> startswith ?url (str ''https://''))"
        by (simp add: external_def)
      obtain is_valid reason where
        v: "fst (validate_local_link os ?url file_path docs_directory) = (is_valid, reason)"
        by (cases "fst (validate_local_link os ?url file_path docs_directory)")
      show ?thesis
      proof (cases is_valid)
        case True
        with assms n e v show ?thesis by (simp add: check_link_def Let_def)
      next
        case iv: False
        let ?b = "\<lparr>broken_file = file_path, broken_url = ?url,
                    broken_text = text_of lnk, broken_reason = reason,
                    broken_type = str ''local''\<rparr>"
        from assms n e v iv
        have s: "st' = st\<lparr>broken_links := broken_links st @ [?b]\<rparr>"
          by (simp add: check_link_def Let_def)
        have "checked_entry os session check_external docs_directory file_path lnk ?b"
          using ns False v iv by (simp add: checked_entry_def)
        with s show ?thesis by simp
      qed
    qed
  qed
qed

lemma check_links_effect:
  "check_links os session check_external docs_directory file_path links st = Inr st' \<Longrightarrow>
   total_links st' = total_links st \<and>
   (\<forall>b \<in> set (broken_links st').
      b \<in> set (broken_links st) \<or>
      (\<exists>lnk \<in> set links. checked_entry os session check_external docs_directory file_path lnk b))"
proof (induction links arbitrary: st)
  case Nil
  then show ?case by simp
next
  case (Cons lnk links)
  from Cons.prems obtain st1 where
    1: "check_link os session check_external docs_directory file_path lnk st = Inr st1"
    and 2: "check_links os session check_external docs_directory file_path links st1 = Inr st'"
    by (auto split: sum.splits)
  note a = check_link_effect[OF 1]
  note b = Cons.IH[OF 2]
  have t: "total_links st' = total_links st" using a b by simp
  have "b' \<in> set (broken_links st) \<or>
        (\<exists>l \<in> set (lnk # links). checked_entry os session check_external docs_directory file_path l b')"
    if m: "b' \<in> set (broken_links st')" for b'
  proof -
    from b m have "b' \<in> set (broken_links st1) \<or>
      (\<exists>l \<in> set links. checked_entry os session check_external docs_directory file_path l b')"
      by blast
    then show ?thesis
    proof
      assume i: "b' \<in> set (broken_links st1)"
      from a have "broken_links st1 = broken_links st \<or>
          (\<exists>x. broken_links st1 = broken_links st @ [x] \<and>
               checked_entry os session check_external docs_directory file_path lnk x)" by simp
      then show ?thesis
      proof
        assume "broken_links st1 = broken_links st"
        with i show ?thesis by simp
      next
        assume "\<exists>x. broken_links st1 = broken_links st @ [x] \<and>
               checked_entry os session check_external docs_directory file_path lnk x"
        then obtain x where x: "broken_links st1 = broken_links st @ [x]"
          "checked_entry os session check_external docs_directory file_path lnk x" by blast
        from i x(1) have "b' \<in> set (broken_links st) \<or> b' = x" by auto
        with x(2) show ?thesis by auto
      qed
    next
      assume "\<exists>l \<in> set links. checked_entry os session check_external docs_directory file_path l b'"
      then show ?thesis by auto
    qed
  qed
  with t show ?case by blast
qed

lemma check_files_effect:
  "check_files os session check_external docs_directory files st = Inr st' \<Longrightarrow>
   total_links st' = total_links st + (\<Sum>f\<leftarrow>files. length (links_in os f)) \<and>
   (\<forall>b \<in> set (broken_links st').
      b \<in> set (broken_links st) \<or>
      (\<exists>f \<in> set files. \<exists>lnk \<in> set (links_in os f).
         checked_entry os session check_external docs_directory f lnk b))"
proof (induction files arbitrary: st)
  case Nil
  then show ?case by simp
next
  case (Cons f files)
  from Cons.prems obtain links st1 where
    0: "extract_links os f = Inr links"
    and 1: "check_links os session check_external docs_directory f links
              (st\<lparr>total_links := total_links st + length links\<rparr>) = Inr st1"
    and 2: "check_files os session check_external docs_directory files st1 = Inr st'"
    by (auto split: sum.splits)
  from 0 have l: "links_in os f = links" by (simp add: links_in_def)
  note a = check_links_effect[OF 1]
  note b = Cons.IH[OF 2]
  have t: "total_links st' = total_links st + (\<Sum>g\<leftarrow>f # files. length (links_in os g))"
    using a b l by simp
  have "b' \<in> set (broken_links st) \<or>
        (\<exists>g \<in> set (f # files). \<exists>lnk \<in> set (links_in os g).
           checked_entry os session check_external docs_directory g lnk b')"
    if m: "b' \<in> set (broken_links st')" for b'
  proof -
    from b m have "b' \<in> set (broken_links st1) \<or>
      (\<exists>g \<in> set files. \<exists>lnk \<in> set (links_in os g).
           checked_entry os session check_external docs_directory g lnk b')" by blast
    then show ?thesis
    proof
      assume "b' \<in> set (broken_links st1)"
      with a have "b' \<in> set (broken_links st) \<or>
        (\<exists>lnk \<in> set links. checked_entry os session check_external docs_directory f lnk b')"
        by auto
      with l show ?thesis by auto
    next
      assume "\<exists>g \<in> set files. \<exists>lnk \<in> set (links_in os g).
           checked_entry os session check_external docs_directory g lnk b'"
      then show ?thesis by auto
    qed
  qed
  with t show ?case by blast
qed

lemma checked_entry_not_skipped:
  "checked_entry os session check_external docs_directory file_path lnk b \<Longrightarrow>
   \<not> skipped (broken_url b)"
  by (simp add: checked_entry_def)

lemma check_files_no_links:
  "\<forall>f \<in> set files. extract_links os f = Inr [] \<Longrightarrow>
   check_files os session check_external docs_directory files st = Inr st"
  by (induction files arbitrary: st) simp_all

lemma validate_links_no_links:
  "\<forall>f \<in> set (find_markdown_files os docs_directory). extract_links os f = Inr [] \<Longrightarrow>
   validate_links os session docs_directory check_external =
     Inr (True, \<lparr>total_links = 0, broken_links = [], requests = []\<rparr>)"
  by (simp add: validate_links_def check_files_no_links)



lemma find_markdown_files_regular_file:
  "stat os docs_dir = Some (File c) \<Longrightarrow> find_markdown_files os docs_dir = []"
  by (simp add: find_markdown_files_def os_walk_def)

subsection \<open>The run over the example tree\<close>

lemmas string_eval = str_def ord_def newline_def sep_def startswith_def endswith_def isspace_def
  strip_def

lemmas path_eval = validate_local_link_def local_full_path_def abspath_def normpath_def
  normpath_step_def path_join_def path_dirname_def lstrip_chr_def rstrip_chr_def split_first_def
  path_exists_def path_isdir_def stat_def example_os_def Let_def

lemma example_files:
  "find_markdown_files example_os (str ''docs'') = [str ''docs/index.md'', str ''docs/guide/index.md'']"
  by code_simp

lemma example_index_content:
  "read_text example_os (str ''docs/index.md'') =
     Inr (str ''[home](/index.md) [mail](mailto:a@b.c) [gone](missing.md)'')"
  by code_simp

lemma example_guide_content:
  "read_text example_os (str ''docs/guide/index.md'') = Inr (str ''[up](../index.md#top)'')"
  by code_simp

lemma example_index_markdown:
  "finditer_markdown (str ''[home](/index.md) [mail](mailto:a@b.c) [gone](missing.md)'') =
     [\<lparr>group0 = str ''[home](/index.md)'', group1 = str ''home'', group2 = str ''/index.md''\<rparr>,
      \<lparr>group0 = str ''[mail](mailto:a@b.c)'', group1 = str ''mail'', group2 = str ''mailto:a@b.c''\<rparr>,
      \<lparr>group0 = str ''[gone](missing.md)'', group1 = str ''gone'', group2 = str ''missing.md''\<rparr>]"
  by (simp add: string_eval match_markdown_def)

lemma example_index_reference:
  "finditer_reference (str ''[home](/index.md) [mail](mailto:a@b.c) [gone](missing.md)'') = []"
  by (simp add: string_eval match_reference_def dot_plus_def)

lemma example_guide_markdown:
  "finditer_markdown (str ''[up](../index.md#top)'') =
     [\<lparr>group0 = str ''[up](../index.md#top)'', group1 = str ''up'', group2 = str ''../index.md#top''\<rparr>]"
  by (simp add: string_eval match_markdown_def)

lemma example_guide_reference:
  "finditer_reference (str ''[up](../index.md#top)'') = []"
  by (simp add: string_eval match_reference_def dot_plus_def)

lemma example_index_links:
  "extract_links example_os (str ''docs/index.md'') = Inr [home_link, mail_link, gone_link]"
  by (simp add: extract_links_def example_index_content markdown_links_def ref_links_def
        findall_markdown_def findall_reference_def example_index_markdown example_index_reference
        home_link_def mail_link_def gone_link_def)

lemma example_guide_links:
  "extract_links example_os (str ''docs/guide/index.md'') = Inr [up_link]"
  by (simp add: extract_links_def example_guide_content markdown_links_def ref_links_def
        findall_markdown_def findall_reference_def example_guide_markdown example_guide_reference
        up_link_def)

lemma check_home_link:
  "check_link example_os example_session True (str ''docs'') (str ''docs/index.md'') home_link st = Inr st"
  by (simp add: check_link_def home_link_def string_eval path_eval)

lemma check_mail_link:
  "check_link example_os example_session True (str ''docs'') (str ''docs/index.md'') mail_link st = Inr st"
  by (simp add: check_link_def mail_link_def string_eval Let_def)

lemma check_gone_link:
  "check_link example_os example_session True (str ''docs'') (str ''docs/index.md'') gone_link st =
     Inr (st\<lparr>broken_links := broken_links st @ [gone_entry]\<rparr>)"
  by (simp add: check_link_def gone_link_def gone_entry_def string_eval path_eval)

lemma check_up_link:
  "check_link example_os example_session True (str ''docs'') (str ''docs/guide/index.md'') up_link st = Inr st"
  by (simp add: check_link_def up_link_def string_eval path_eval)

lemma example_run:
  "validate_links example_os example_session (str ''docs'') True =
     Inr (False, \<lparr>total_links = 4, broken_links = [gone_entry], requests = []\<rparr>)"
  by (simp add: validate_links_def example_files example_index_links example_guide_links
        check_home_link check_mail_link check_gone_link check_up_link)




lemma example_notes_stat:
  "stat example_os (str ''docs/notes.txt'') = Some (File (Some (str ''[x](nowhere.md)'')))"
  by code_simp

subsection \<open>The claims\<close>

text \<open>
  Claim C8: a link whose trimmed target is empty or starts with \<open>mailto:\<close> or
  \<open>javascript:\<close> leaves the state of the loop as it was (no entry is added and no request
  is made); when the run completes, the total is the number of all links extracted from the
  files found, skipped ones included, and every entry of the broken-links list records the
  failed check, local or external, of a link of one of those files whose target is not a
  skipped one.
\<close>

theorem skipped_links_counted_not_reported:
  "(skipped (strip (url_of lnk)) \<longrightarrow>
      check_link os session check_external docs_directory file_path lnk st = Inr st) \<and>
   (validate_links os session docs_directory check_external = Inr (ok, final) \<longrightarrow>
      total_links final =
        (\<Sum>f\<leftarrow>find_markdown_files os docs_directory. length (links_in os f)) \<and>
      (\<forall>b \<in> set (broken_links final).
         \<not> skipped (broken_url b) \<and>
         (\<exists>f \<in> set (find_markdown_files os docs_directory). \<exists>l \<in> set (links_in os f).
            checked_entry os session check_external docs_directory f l b)))"
proof (intro conjI impI)
  assume "skipped (strip (url_of lnk))"
  then show "check_link os session check_external docs_directory file_path lnk st = Inr st"
    by (rule check_link_skipped)
next
  assume v: "validate_links os session docs_directory check_external = Inr (ok, final)"
  then have c: "check_files os session check_external docs_directory
           (find_markdown_files os docs_directory)
           \<lparr>total_links = 0, broken_links = [], requests = []\<rparr> = Inr final"
    by (auto simp: validate_links_def Let_def split: sum.splits)
  note e = check_files_effect[OF c]
  from e show "total_links final =
        (\<Sum>f\<leftarrow>find_markdown_files os docs_directory. length (links_in os f))" by simp
next
  assume v: "validate_links os session docs_directory check_external = Inr (ok, final)"
  then have c: "check_files os session check_external docs_directory
           (find_markdown_files os docs_directory)
           \<lparr>total_links = 0, broken_links = [], requests = []\<rparr> = Inr final"
    by (auto simp: validate_links_def Let_def split: sum.splits)
  note e = check_files_effect[OF c]
  show "\<forall>b \<in> set (broken_links final).
         \<not> skipped (broken_url b) \<and>
         (\<exists>f \<in> set (find_markdown_files os docs_directory). \<exists>l \<in> set (links_in os f).
            checked_entry os session check_external docs_directory f l b)"
  proof
    fix b assume "b \<in> set (broken_links final)"
    with e have x: "\<exists>f \<in> set (find_markdown_files os docs_directory). \<exists>l \<in> set (links_in os f).
            checked_entry os session check_external docs_directory f l b" by simp
    then have "\<not> skipped (broken_url b)" using checked_entry_not_skipped by blast
    from this x show "\<not> skipped (broken_url b) \<and>
         (\<exists>f \<in> set (find_markdown_files os docs_directory). \<exists>l \<in> set (links_in os f).
            checked_entry os session check_external docs_directory f l b)" by (rule conjI)
  qed
qed

theorem skipped_links_counted_not_reported_witness:
  "skipped (strip (url_of mail_link)) \<and>
   check_link example_os example_session True (str ''docs'') (str ''docs/index.md'') mail_link
     \<lparr>total_links = 3, broken_links = [], requests = []\<rparr> =
     Inr \<lparr>total_links = 3, broken_links = [], requests = []\<rparr> \<and>
   validate_links example_os example_session (str ''docs'') True =
     Inr (False, \<lparr>total_links = 4, broken_links = [gone_entry], requests = []\<rparr>) \<and>
   (\<Sum>f\<leftarrow>find_markdown_files example_os (str ''docs''). length (links_in example_os f)) = 4 \<and>
   \<not> skipped (broken_url gone_entry) \<and>
   (\<exists>f \<in> set (find_markdown_files example_os (str ''docs'')). \<exists>l \<in> set (links_in example_os f).
      checked_entry example_os example_session True (str ''docs'') f l gone_entry)"
proof -
  let ?st = "\<lparr>total_links = 3, broken_links = [], requests = []\<rparr>"
  let ?final = "\<lparr>total_links = 4, broken_links = [gone_entry], requests = []\<rparr>"
  note T = skipped_links_counted_not_reported[where lnk = mail_link and os = example_os
      and session = example_session and check_external = True and docs_directory = "str ''docs''"
      and file_path = "str ''docs/index.md''" and st = ?st and ok = False and final = ?final]
  have h: "skipped (strip (url_of mail_link))"
    by (simp add: skipped_def mail_link_def string_eval)
  note a = T[THEN conjunct1, rule_format, OF h]
  note bc = T[THEN conjunct2, rule_format, OF example_run]
  note b = bc[THEN conjunct1]
  note c = bc[THEN conjunct2]
  from b have b': "(\<Sum>f\<leftarrow>find_markdown_files example_os (str ''docs''). length (links_in example_os f)) = 4"
    by simp
  from c have c': "\<not> skipped (broken_url gone_entry) \<and>
         (\<exists>f \<in> set (find_markdown_files example_os (str ''docs'')). \<exists>l \<in> set (links_in example_os f).
            checked_entry example_os example_session True (str ''docs'') f l gone_entry)"
    by simp
  from h a example_run b' c' show ?thesis by (intro conjI) (elim conjE; assumption)+
qed



text \<open>
  Claim C10: when the path given exists and is a regular file, the existence test of
  \<open>main\<close> passes, the walk yields nothing, no Markdown file is found, the run reports a
  total of 0 and no broken link, and the exit status is 0.
\<close>

theorem root_is_regular_file:
  assumes "stat os docs_dir = Some (File c)"
  shows "path_exists os docs_dir \<and>
         os_walk os docs_dir = [] \<and>
         find_markdown_files os docs_dir = [] \<and>
         validate_links os session docs_dir (\<not> skip_external) =
           Inr (True, \<lparr>total_links = 0, broken_links = [], requests = []\<rparr>) \<and>
         main os session docs_dir skip_external = Inr 0 \<and>
         exit_status (main os session docs_dir skip_external) = 0"
proof -
  from assms have e: "path_exists os docs_dir" by (simp add: path_exists_def)
  from assms have w: "os_walk os docs_dir = []" by (simp add: os_walk_def)
  note f = find_markdown_files_regular_file[OF assms]
  then have "\<forall>f \<in> set (find_markdown_files os docs_dir). extract_links os f = Inr []" by simp
  note v = validate_links_no_links[OF this, of session "\<not> skip_external"]
  from e v have m: "main os session docs_dir skip_external = Inr 0" by (simp add: main_def)
  then have "exit_status (main os session docs_dir skip_external) = 0"
    by (simp add: exit_status_def)
  with e w f v m show ?thesis by simp
qed

theorem root_is_regular_file_witness:
  "stat example_os (str ''docs/notes.txt'') = Some (File (Some (str ''[x](nowhere.md)''))) \<and>
   path_exists example_os (str ''docs/notes.txt'') \<and>
   find_markdown_files example_os (str ''docs/notes.txt'') = [] \<and>
   validate_links example_os example_session (str ''docs/notes.txt'') True =
     Inr (True, \<lparr>total_links = 0, broken_links = [], requests = []\<rparr>) \<and>
   exit_status (main example_os example_session (str ''docs/notes.txt'') False) = 0"
proof -
  note R = root_is_regular_file[OF example_notes_stat, of example_session False]
  note r1 = R[THEN conjunct1]
  note r3 = R[THEN conjunct2, THEN conjunct2, THEN conjunct1]
  have r4: "validate_links example_os example_session (str ''docs/notes.txt'') True =
     Inr (True, \<lparr>total_links = 0, broken_links = [], requests = []\<rparr>)"
    using R[THEN conjunct2, THEN conjunct2, THEN conjunct2, THEN conjunct1] by simp
  note r6 = R[THEN conjunct2, THEN conjunct2, THEN conjunct2, THEN conjunct2, THEN conjunct2]
  from example_notes_stat r1 r3 r4 r6 show ?thesis by (intro conjI)
qed

end
